theory Spec2Isabelle
  imports Main "HOL-Library.Sublist"
begin

section \<open>Data model\<close>

text \<open>
  The routing strategies of \<^verbatim>\<open>complex_topologies.py\<close> work on a network object whose
  classes (\<^verbatim>\<open>Node\<close>, \<^verbatim>\<open>Channel\<close>, \<^verbatim>\<open>Packet\<close>, \<^verbatim>\<open>AbstractRing\<close>, \<^verbatim>\<open>AbstractTorus\<close>,
  \<^verbatim>\<open>AbstractStar\<close>) are imported from \<^verbatim>\<open>a3_network\<close> and \<^verbatim>\<open>a3_part1\<close>. Only what the
  strategies read of them appears below:
  \<^item> \<^verbatim>\<open>self._nodes\<close>, a dict from addresses to nodes, is an association list (Python
    dicts iterate in insertion order), looked up with \<open>map_of\<close>;
  \<^item> \<^verbatim>\<open>node.channels\<close>, a dict from the neighbour's address to the channel, likewise;
  \<^item> a channel is an object compared by identity: a value of a type \<open>'c\<close> of channel
    identities, and \<^verbatim>\<open>channel.total_occupancy()\<close> is a read accessor \<open>occ :: 'c \<Rightarrow> int\<close>
    passed to every function that calls it;
  \<^item> \<^verbatim>\<open>random.randint\<close> is a parameter \<open>randint :: int \<Rightarrow> int \<Rightarrow> int\<close>; Python's
    \<^verbatim>\<open>randint(a, b)\<close> returns some \<open>N\<close> with \<open>a \<le> N \<le> b\<close>, both ends included.

  Every class and function of the module is decorated with \<^verbatim>\<open>@check_contracts\<close>, which
  evaluates the preconditions of the docstring that are Python expressions before the
  body runs and raises an assertion error when one is false. The selectors and the path
  score below carry that check. The preconditions of the methods, that the addresses are
  keys of \<^verbatim>\<open>self._nodes\<close>, are not part of the definitions of the distance functions
  and of \<^verbatim>\<open>route_packet\<close>, which give the result of the body; the theorems about them
  are at addresses of the network.
\<close>

datatype error = IndexError | KeyError | AssertionError

record ('a, 'c) node =
  channels :: "('a \<times> 'c) list"

type_synonym ('a, 'c) nodes = "('a \<times> ('a, 'c) node) list"

record 'a packet =
  packet_id :: int
  source :: 'a
  destination :: 'a

text \<open>
  Python's \<^verbatim>\<open>xs[i]\<close>: a negative index counts from the end, and an index outside
  the list raises \<^verbatim>\<open>IndexError\<close>.
\<close>

definition subscript :: "'a list \<Rightarrow> int \<Rightarrow> error + 'a" where
  "subscript xs i =
     (if 0 \<le> i \<and> i < int (length xs) then Inr (xs ! nat i)
      else if i < 0 \<and> - int (length xs) \<le> i then Inr (xs ! nat (int (length xs) + i))
      else Inl IndexError)"

text \<open>Python's \<^verbatim>\<open>d[k]\<close> on a dict: a missing key raises \<^verbatim>\<open>KeyError\<close>.\<close>

definition lookup :: "('k \<times> 'v) list \<Rightarrow> 'k \<Rightarrow> error + 'v" where
  "lookup d k = (case map_of d k of None \<Rightarrow> Inl KeyError | Some v \<Rightarrow> Inr v)"

section \<open>Path score\<close>

text \<open>
  \<^verbatim>\<open>for i, c in enumerate(path): score += max(c.total_occupancy() - i, 0)\<close>:
  the loop of \<^verbatim>\<open>compute_path_score\<close>, with the index and the running score as
  arguments.
\<close>

fun score_loop :: "('c \<Rightarrow> int) \<Rightarrow> int \<Rightarrow> int \<Rightarrow> 'c list \<Rightarrow> int" where
  "score_loop occ i score [] = score"
| "score_loop occ i score (c # path) = score_loop occ (i + 1) (score + max (occ c - i) 0) path"

text \<open>
  \<^verbatim>\<open>compute_path_score\<close>. Of its two documented preconditions \<^verbatim>\<open>path != []\<close> is an
  expression and is asserted; \<^verbatim>\<open>path is a valid path\<close> is prose.
\<close>

definition compute_path_score :: "('c \<Rightarrow> int) \<Rightarrow> 'c list \<Rightarrow> error + int" where
  "compute_path_score occ path =
     (if path = [] then Inl AssertionError
      else let score = 0; k = int (length path) in Inr (k + score_loop occ 0 score path))"

section \<open>Distance metrics\<close>

text \<open>
  \<^verbatim>\<open>GreedyChannelRing.get_distance\<close>. \<open>k\<close> is \<^verbatim>\<open>len(self._nodes)\<close>; the two branches
  assign \<^verbatim>\<open>left_dist\<close> and \<^verbatim>\<open>right_dist\<close> from the signed difference \<^verbatim>\<open>n2 - n1\<close>.
\<close>

definition GreedyChannelRing_get_distance :: "(int, 'c) nodes \<Rightarrow> int \<Rightarrow> int \<Rightarrow> int" where
  "GreedyChannelRing_get_distance nodes n1 n2 =
     (let k = int (length nodes) in
      if n1 = n2 then 0
      else
        let (left_dist, right_dist) =
              (if n2 > n1 then (k - (n2 - n1), n2 - n1) else (n2 - n1, k - (n2 - n1)))
        in if left_dist \<ge> right_dist then right_dist else left_dist)"

text \<open>
  \<^verbatim>\<open>GreedyChannelTorus.get_ring_distance\<close>: the same branches under \<^verbatim>\<open>abs\<close>, with \<open>k\<close>
  again \<^verbatim>\<open>len(self._nodes)\<close>, the number of nodes of the whole torus.
\<close>

definition get_ring_distance :: "(int \<times> int, 'c) nodes \<Rightarrow> int \<Rightarrow> int \<Rightarrow> int" where
  "get_ring_distance nodes n1 n2 =
     (let k = int (length nodes) in
      if n1 = n2 then 0
      else
        let (left_dist, right_dist) =
              (if n2 > n1 then (\<bar>k - (n2 - n1)\<bar>, \<bar>n2 - n1\<bar>) else (\<bar>n2 - n1\<bar>, \<bar>k - (n2 - n1)\<bar>))
        in if left_dist \<ge> right_dist then right_dist else left_dist)"

definition GreedyChannelTorus_get_distance ::
  "(int \<times> int, 'c) nodes \<Rightarrow> int \<times> int \<Rightarrow> int \<times> int \<Rightarrow> int" where
  "GreedyChannelTorus_get_distance nodes n1 n2 =
     (let (x_s, y_s) = n1;
          (x_d, y_d) = n2;
          x_dist = get_ring_distance nodes x_s x_d;
          y_dist = get_ring_distance nodes y_s y_d
      in x_dist + y_dist)"

text \<open>
  \<^verbatim>\<open>GreedyChannelStar.get_distance\<close>. The loop over \<^verbatim>\<open>self._nodes.values()\<close> counts the
  nodes whose channel dict has \<^verbatim>\<open>length - 1\<close> entries; \<^verbatim>\<open>central_nodes\<close> is
  \<^verbatim>\<open>range(k1)\<close>, so \<^verbatim>\<open>n in central_nodes\<close> is \<open>0 \<le> n \<and> n < k1\<close>.
\<close>

fun count_central :: "int \<Rightarrow> int \<Rightarrow> ('a, 'c) node list \<Rightarrow> int" where
  "count_central len k1 [] = k1"
| "count_central len k1 (node # rest) =
     (if int (length (channels node)) = len - 1 then count_central len (k1 + 1) rest
      else count_central len k1 rest)"

definition GreedyChannelStar_get_distance :: "(int, 'c) nodes \<Rightarrow> int \<Rightarrow> int \<Rightarrow> int" where
  "GreedyChannelStar_get_distance nodes n1 n2 =
     (let len = int (length nodes);
          k1 = count_central len 0 (map snd nodes)
      in if n1 = n2 then 0
         else if (0 \<le> n2 \<and> n2 < k1) \<or> (0 \<le> n1 \<and> n1 < k1) then 1
         else 2)"

text \<open>
  The distance the specification gives for a ring of size \<open>k\<close>, in its own words:
  \<open>min(|b - a|, k - |b - a|)\<close>. The distance functions above are compared with it.
\<close>

definition ring_distance_spec :: "int \<Rightarrow> int \<Rightarrow> int \<Rightarrow> int" where
  "ring_distance_spec k a b = min \<bar>b - a\<bar> (k - \<bar>b - a\<bar>)"



section \<open>Selection\<close>

text \<open>
  A Python \<^verbatim>\<open>for x in xs:\<close> loop whose body is \<^verbatim>\<open>if P(x): xs.remove(x)\<close>. The list
  iterator keeps an index \<open>i\<close> into the list as it is now: it stops when \<open>i\<close> reaches
  the current length, yields \<^verbatim>\<open>xs[i]\<close> and advances to \<open>i + 1\<close>, also after a removal
  has shifted the later elements to the left. \<^verbatim>\<open>xs.remove(x)\<close> deletes the first
  element equal to \<open>x\<close>.
\<close>

function remove_iter :: "('a \<Rightarrow> bool) \<Rightarrow> nat \<Rightarrow> 'a list \<Rightarrow> 'a list" where
  "remove_iter P i xs =
     (if i < length xs then
        (if P (xs ! i) then remove_iter P (Suc i) (remove1 (xs ! i) xs)
         else remove_iter P (Suc i) xs)
      else xs)"
  by pat_completeness auto
termination
  by (relation "measure (\<lambda>(P, i, xs). length xs - i)") (auto simp: length_remove1)

declare remove_iter.simps [simp del]

text \<open>
  The first loop of \<^verbatim>\<open>greedy_channel_select\<close>: \<^verbatim>\<open>min_dist\<close> is only looked at when the
  score has just dropped strictly.
\<close>

fun min_channel_loop :: "('c \<Rightarrow> int) \<Rightarrow> (int \<times> 'c) list \<Rightarrow> int \<times> int \<Rightarrow> int \<times> int" where
  "min_channel_loop occ [] (min_score, min_dist) = (min_score, min_dist)"
| "min_channel_loop occ ((d, channel) # rest) (min_score, min_dist) =
     (let channel_occupancy = occ channel;
          score = d + channel_occupancy
      in if score < min_score
         then min_channel_loop occ rest (score, if d < min_dist then d else min_dist)
         else min_channel_loop occ rest (min_score, min_dist))"

text \<open>
  \<^verbatim>\<open>greedy_channel_select\<close>, returning the result together with the list \<^verbatim>\<open>channels\<close>
  as the call leaves it: the argument is a Python list and \<^verbatim>\<open>channels.remove\<close> changes
  it in place. The two preconditions \<^verbatim>\<open>channels != []\<close> and
  \<^verbatim>\<open>all(tup[0] >= 0 for tup in channels)\<close> are asserted before the body, so the
  \<^verbatim>\<open>IndexError\<close> of \<^verbatim>\<open>channels[0]\<close> on an empty list is never reached. The parameter
  is written \<open>channels_lst\<close>, its name at the call sites, since \<open>channels\<close> is the
  field of a node.
\<close>

definition greedy_channel_select_run ::
  "('c \<Rightarrow> int) \<Rightarrow> (int \<Rightarrow> int \<Rightarrow> int) \<Rightarrow> (int \<times> 'c) list \<Rightarrow> (error + 'c) \<times> (int \<times> 'c) list" where
  "greedy_channel_select_run occ randint channels_lst =
     (if \<not> (channels_lst \<noteq> [] \<and> list_all (\<lambda>tup. fst tup \<ge> 0) channels_lst)
      then (Inl AssertionError, channels_lst)
      else
        (case channels_lst of
           [] \<Rightarrow> (Inl IndexError, channels_lst)
         | (d0, c0) # _ \<Rightarrow>
             let (min_score, min_dist) = min_channel_loop occ channels_lst (d0 + occ c0, d0);
                 channels1 = remove_iter (\<lambda>(d, c). d + occ c \<noteq> min_score) 0 channels_lst;
                 channels2 = (if length channels1 > 1
                              then remove_iter (\<lambda>(d, c). d \<noteq> min_dist) 0 channels1
                              else channels1)
             in if length channels2 > 1
                then (let index = randint 0 (int (length channels2))
                      in (map_sum id snd (subscript channels2 index), channels2))
                else (map_sum id snd (subscript channels2 0), channels2)))"

definition greedy_channel_select ::
  "('c \<Rightarrow> int) \<Rightarrow> (int \<Rightarrow> int \<Rightarrow> int) \<Rightarrow> (int \<times> 'c) list \<Rightarrow> error + 'c" where
  "greedy_channel_select occ randint channels_lst = fst (greedy_channel_select_run occ randint channels_lst)"

text \<open>
  The first loop of \<^verbatim>\<open>greedy_path_select\<close>. It calls \<^verbatim>\<open>compute_path_score\<close> on every
  path of the list, so it stops with the assertion error at the first empty one.
\<close>

fun min_path_loop ::
  "('c \<Rightarrow> int) \<Rightarrow> 'c list list \<Rightarrow> int \<times> int \<Rightarrow> error + int \<times> int" where
  "min_path_loop occ [] (min_score, min_len) = Inr (min_score, min_len)"
| "min_path_loop occ (p # rest) (min_score, min_len) =
     (case compute_path_score occ p of
        Inl e \<Rightarrow> Inl e
      | Inr score \<Rightarrow>
          let len = int (length p)
          in if score < min_score
             then min_path_loop occ rest (score, if len < min_len then len else min_len)
             else min_path_loop occ rest (min_score, min_len))"

text \<open>
  \<^verbatim>\<open>greedy_path_select\<close>, with the list \<^verbatim>\<open>paths\<close> as the call leaves it. Of its
  preconditions \<^verbatim>\<open>paths != []\<close> is an expression and is asserted; the other three are
  prose. The result is \<^verbatim>\<open>paths[index][0]\<close>, the first channel of the chosen path. The
  filtering loop calls \<^verbatim>\<open>compute_path_score\<close> again, on paths that the first loop has
  already scored: it removes the paths whose score is not \<^verbatim>\<open>min_score\<close>.
\<close>

definition greedy_path_select_run ::
  "('c \<Rightarrow> int) \<Rightarrow> (int \<Rightarrow> int \<Rightarrow> int) \<Rightarrow> 'c list list \<Rightarrow> (error + 'c) \<times> 'c list list" where
  "greedy_path_select_run occ randint paths =
     (if \<not> paths \<noteq> [] then (Inl AssertionError, paths)
      else
        (case paths of
           [] \<Rightarrow> (Inl IndexError, paths)
         | p0 # _ \<Rightarrow>
             (case compute_path_score occ p0 of
                Inl e \<Rightarrow> (Inl e, paths)
              | Inr score0 \<Rightarrow>
                  (case min_path_loop occ paths (score0, int (length p0)) of
                     Inl e \<Rightarrow> (Inl e, paths)
                   | Inr (min_score, min_len) \<Rightarrow>
                       let paths1 =
                             remove_iter (\<lambda>p. compute_path_score occ p \<noteq> Inr min_score) 0 paths;
                           paths2 = (if length paths1 > 1
                                     then remove_iter (\<lambda>p. int (length p) \<noteq> min_len) 0 paths1
                                     else paths1)
                       in if length paths2 > 1
                          then (let index = randint 0 (int (length paths2))
                                in (case subscript paths2 index of
                                      Inl e \<Rightarrow> (Inl e, paths2)
                                    | Inr p \<Rightarrow> (subscript p 0, paths2)))
                          else (case subscript paths2 0 of
                                  Inl e \<Rightarrow> (Inl e, paths2)
                                | Inr p \<Rightarrow> (subscript p 0, paths2))))))"

definition greedy_path_select ::
  "('c \<Rightarrow> int) \<Rightarrow> (int \<Rightarrow> int \<Rightarrow> int) \<Rightarrow> 'c list list \<Rightarrow> error + 'c" where
  "greedy_path_select occ randint paths = fst (greedy_path_select_run occ randint paths)"

section \<open>Routing strategies\<close>

text \<open>
  The loop of the three greedy-channel \<^verbatim>\<open>route_packet\<close> methods over the neighbours'
  addresses: each neighbour is looked up in \<^verbatim>\<open>self._nodes\<close>, and the channel back to
  \<^verbatim>\<open>current_address\<close> in that neighbour's channel dict.
\<close>

fun channels_loop ::
  "('a \<Rightarrow> 'a \<Rightarrow> int) \<Rightarrow> ('a, 'c) nodes \<Rightarrow> 'a \<Rightarrow> 'a \<Rightarrow> 'a list \<Rightarrow> (int \<times> 'c) list
     \<Rightarrow> error + (int \<times> 'c) list" where
  "channels_loop get_distance nodes current_address dest [] channels_lst = Inr channels_lst"
| "channels_loop get_distance nodes current_address dest (address # rest) channels_lst =
     (case lookup nodes address of
        Inl e \<Rightarrow> Inl e
      | Inr node \<Rightarrow>
          (case lookup (channels node) current_address of
             Inl e \<Rightarrow> Inl e
           | Inr channel \<Rightarrow>
               let d = get_distance address dest
               in channels_loop get_distance nodes current_address dest rest
                    (channels_lst @ [(d, channel)])))"

text \<open>
  The body the three greedy-channel classes share; they differ in \<^verbatim>\<open>self.get_distance\<close>
  only.
\<close>

definition greedy_channel_route_packet ::
  "('a \<Rightarrow> 'a \<Rightarrow> int) \<Rightarrow> ('a, 'c) nodes \<Rightarrow> ('c \<Rightarrow> int) \<Rightarrow> (int \<Rightarrow> int \<Rightarrow> int)
     \<Rightarrow> 'a \<Rightarrow> 'a packet \<Rightarrow> error + 'c option" where
  "greedy_channel_route_packet get_distance nodes occ randint current_address packet =
     (let dest = destination packet in
      if current_address = dest then Inr None
      else
        (case lookup nodes current_address of
           Inl e \<Rightarrow> Inl e
         | Inr curr_node \<Rightarrow>
             let neighbour_add = map fst (channels curr_node)
             in (case channels_loop get_distance nodes current_address dest neighbour_add [] of
                   Inl e \<Rightarrow> Inl e
                 | Inr channels_lst \<Rightarrow>
                     map_sum id Some (greedy_channel_select occ randint channels_lst))))"

definition GreedyChannelRing_route_packet ::
  "(int, 'c) nodes \<Rightarrow> ('c \<Rightarrow> int) \<Rightarrow> (int \<Rightarrow> int \<Rightarrow> int) \<Rightarrow> int \<Rightarrow> int packet
     \<Rightarrow> error + 'c option" where
  "GreedyChannelRing_route_packet nodes =
     greedy_channel_route_packet (GreedyChannelRing_get_distance nodes) nodes"

definition GreedyChannelTorus_route_packet ::
  "(int \<times> int, 'c) nodes \<Rightarrow> ('c \<Rightarrow> int) \<Rightarrow> (int \<Rightarrow> int \<Rightarrow> int) \<Rightarrow> int \<times> int
     \<Rightarrow> (int \<times> int) packet \<Rightarrow> error + 'c option" where
  "GreedyChannelTorus_route_packet nodes =
     greedy_channel_route_packet (GreedyChannelTorus_get_distance nodes) nodes"

definition GreedyChannelStar_route_packet ::
  "(int, 'c) nodes \<Rightarrow> ('c \<Rightarrow> int) \<Rightarrow> (int \<Rightarrow> int \<Rightarrow> int) \<Rightarrow> int \<Rightarrow> int packet
     \<Rightarrow> error + 'c option" where
  "GreedyChannelStar_route_packet nodes =
     greedy_channel_route_packet (GreedyChannelStar_get_distance nodes) nodes"

text \<open>
  The three greedy-path classes have one and the same \<^verbatim>\<open>route_packet\<close>. The path
  enumerator \<^verbatim>\<open>self.find_paths\<close> is inherited from \<^verbatim>\<open>a3_part1\<close> and is a parameter here.
\<close>

definition greedy_path_route_packet ::
  "('a \<Rightarrow> 'a \<Rightarrow> 'c list list) \<Rightarrow> ('c \<Rightarrow> int) \<Rightarrow> (int \<Rightarrow> int \<Rightarrow> int)
     \<Rightarrow> 'a \<Rightarrow> 'a packet \<Rightarrow> error + 'c option" where
  "greedy_path_route_packet find_paths occ randint current_address packet =
     (let dest = destination packet in
      if current_address = dest then Inr None
      else
        let channels_lst = find_paths current_address dest
        in map_sum id Some (greedy_path_select occ randint channels_lst))"

section \<open>Example networks, occupancies and random sources\<close>

text \<open>
  Concrete inputs on which the functions above are evaluated below. A channel is named
  by its two endpoints, the smaller first. The rings have 5 and 6 nodes, the torus is
  3 by 3 with wrap-around in both axes. Every candidate list used below meets the
  preconditions that the docstrings of the selectors state (and that the decorator
  \<^verbatim>\<open>check_contracts\<close> asserts): it is not empty and no distance in it is negative.
\<close>

definition ring5 :: "(int, int \<times> int) nodes" where
  "ring5 =
     [
      (0, \<lparr>channels = [(4, (0, 4)), (1, (0, 1))]\<rparr>),
      (1, \<lparr>channels = [(0, (0, 1)), (2, (1, 2))]\<rparr>),
      (2, \<lparr>channels = [(1, (1, 2)), (3, (2, 3))]\<rparr>),
      (3, \<lparr>channels = [(2, (2, 3)), (4, (3, 4))]\<rparr>),
      (4, \<lparr>channels = [(3, (3, 4)), (0, (0, 4))]\<rparr>)]"

definition ring6 :: "(int, int \<times> int) nodes" where
  "ring6 =
     [
      (0, \<lparr>channels = [(5, (0, 5)), (1, (0, 1))]\<rparr>),
      (1, \<lparr>channels = [(0, (0, 1)), (2, (1, 2))]\<rparr>),
      (2, \<lparr>channels = [(1, (1, 2)), (3, (2, 3))]\<rparr>),
      (3, \<lparr>channels = [(2, (2, 3)), (4, (3, 4))]\<rparr>),
      (4, \<lparr>channels = [(3, (3, 4)), (5, (4, 5))]\<rparr>),
      (5, \<lparr>channels = [(4, (4, 5)), (0, (0, 5))]\<rparr>)]"

definition torus3 :: "(int \<times> int, (int \<times> int) \<times> (int \<times> int)) nodes" where
  "torus3 =
     [
      ((0, 0), \<lparr>channels = [((2, 0), ((0, 0), (2, 0))), ((1, 0), ((0, 0), (1, 0))), ((0, 2), ((0, 0), (0, 2))), ((0, 1), ((0, 0), (0, 1)))]\<rparr>),
      ((0, 1), \<lparr>channels = [((2, 1), ((0, 1), (2, 1))), ((1, 1), ((0, 1), (1, 1))), ((0, 0), ((0, 0), (0, 1))), ((0, 2), ((0, 1), (0, 2)))]\<rparr>),
      ((0, 2), \<lparr>channels = [((2, 2), ((0, 2), (2, 2))), ((1, 2), ((0, 2), (1, 2))), ((0, 1), ((0, 1), (0, 2))), ((0, 0), ((0, 0), (0, 2)))]\<rparr>),
      ((1, 0), \<lparr>channels = [((0, 0), ((0, 0), (1, 0))), ((2, 0), ((1, 0), (2, 0))), ((1, 2), ((1, 0), (1, 2))), ((1, 1), ((1, 0), (1, 1)))]\<rparr>),
      ((1, 1), \<lparr>channels = [((0, 1), ((0, 1), (1, 1))), ((2, 1), ((1, 1), (2, 1))), ((1, 0), ((1, 0), (1, 1))), ((1, 2), ((1, 1), (1, 2)))]\<rparr>),
      ((1, 2), \<lparr>channels = [((0, 2), ((0, 2), (1, 2))), ((2, 2), ((1, 2), (2, 2))), ((1, 1), ((1, 1), (1, 2))), ((1, 0), ((1, 0), (1, 2)))]\<rparr>),
      ((2, 0), \<lparr>channels = [((1, 0), ((1, 0), (2, 0))), ((0, 0), ((0, 0), (2, 0))), ((2, 2), ((2, 0), (2, 2))), ((2, 1), ((2, 0), (2, 1)))]\<rparr>),
      ((2, 1), \<lparr>channels = [((1, 1), ((1, 1), (2, 1))), ((0, 1), ((0, 1), (2, 1))), ((2, 0), ((2, 0), (2, 1))), ((2, 2), ((2, 1), (2, 2)))]\<rparr>),
      ((2, 2), \<lparr>channels = [((1, 2), ((1, 2), (2, 2))), ((0, 2), ((0, 2), (2, 2))), ((2, 1), ((2, 1), (2, 2))), ((2, 0), ((2, 0), (2, 2)))]\<rparr>)]"


text \<open>
  A star of three hubs 0, 1, 2, joined to one another and to the two spokes 3 and 4.
\<close>

definition star_three_hubs :: "(int, int \<times> int) nodes" where
  "star_three_hubs =
     [
      (0, \<lparr>channels = [(1, (0, 1)), (2, (0, 2)), (3, (0, 3)), (4, (0, 4))]\<rparr>),
      (1, \<lparr>channels = [(0, (0, 1)), (2, (1, 2)), (3, (1, 3)), (4, (1, 4))]\<rparr>),
      (2, \<lparr>channels = [(0, (0, 2)), (1, (1, 2)), (3, (2, 3)), (4, (2, 4))]\<rparr>),
      (3, \<lparr>channels = [(0, (0, 3)), (1, (1, 3)), (2, (2, 3))]\<rparr>),
      (4, \<lparr>channels = [(0, (0, 4)), (1, (1, 4)), (2, (2, 4))]\<rparr>)]"

text \<open>Occupancies: every channel idle; channel 0 at 5 and channel 1 at 3; every
  channel but channel 0 at 3; every channel but the one between 0 and 3 at 3.\<close>

definition occ_idle :: "'c \<Rightarrow> int" where
  "occ_idle c = 0"

definition occ_front :: "nat \<Rightarrow> int" where
  "occ_front c = (if c = 0 then 5 else if c = 1 then 3 else 0)"

definition occ_back :: "nat \<Rightarrow> int" where
  "occ_back c = (if c = 0 then 0 else 3)"

definition occ_spoke :: "int \<times> int \<Rightarrow> int" where
  "occ_spoke c = (if c = (0, 3) then 0 else 3)"

text \<open>Random sources: \<^verbatim>\<open>randint(a, b)\<close> drawing \<open>a\<close>, drawing \<open>b\<close>, and drawing the
  value after \<open>a\<close> when there is one.\<close>

definition randint_low :: "int \<Rightarrow> int \<Rightarrow> int" where
  "randint_low a b = a"

definition randint_high :: "int \<Rightarrow> int \<Rightarrow> int" where
  "randint_high a b = b"

definition randint_next :: "int \<Rightarrow> int \<Rightarrow> int" where
  "randint_next a b = min (a + 1) b"

section \<open>Properties of the path score\<close>

lemma score_loop_sum:
  "score_loop occ i s path =
     s + (\<Sum>j < length path. max (occ (path ! j) - (i + int j)) 0)"
proof (induction path arbitrary: i s)
  case Nil
  show ?case by simp
next
  case (Cons c path)
  let ?f = "\<lambda>j. max (occ ((c # path) ! j) - (i + int j)) 0"
  have "(\<Sum>j < Suc (length path). ?f j) = ?f 0 + (\<Sum>j < length path. ?f (Suc j))"
    by (rule sum.lessThan_Suc_shift)
  also have "\<dots> = max (occ c - i) 0
                  + (\<Sum>j < length path. max (occ (path ! j) - (i + 1 + int j)) 0)"
    by (simp add: algebra_simps)
  finally show ?case
    by (simp only: score_loop.simps Cons.IH length_Cons)
qed

lemma score_loop_ge: "s \<le> score_loop occ i s path"
proof (induction path arbitrary: i s)
  case Nil
  show ?case by simp
next
  case (Cons c path)
  have "s \<le> s + max (occ c - i) 0"
    by simp
  also have "\<dots> \<le> score_loop occ (i + 1) (s + max (occ c - i) 0) path"
    by (rule Cons.IH)
  finally show ?case
    by simp
qed

lemma compute_path_score_sum:
  "path \<noteq> [] \<Longrightarrow>
     compute_path_score occ path =
       Inr (int (length path) + (\<Sum>j < length path. max (occ (path ! j) - int j) 0))"
  by (simp add: compute_path_score_def score_loop_sum)

text \<open>
  C7: for a non-empty path \<open>c\<^sub>0, \<dots>, c\<^sub>n\<^sub>-\<^sub>1\<close> the score is
  \<open>n + \<Sum>\<^sub>i max (occupancy c\<^sub>i - i) 0\<close>; hence a single-hop path whose channel has
  occupancy 0 scores 1, and a path in which every channel's occupancy is at most its
  hop index scores its own length. The call returns: the asserted precondition holds.
\<close>

theorem compute_path_score_formula:
  assumes "path \<noteq> []"
  shows "compute_path_score occ path =
           Inr (int (length path) + (\<Sum>i < length path. max (occ (path ! i) - int i) 0))
       \<and> (length path = 1 \<and> occ (path ! 0) = 0 \<longrightarrow> compute_path_score occ path = Inr 1)
       \<and> ((\<forall>i < length path. occ (path ! i) \<le> int i) \<longrightarrow>
            compute_path_score occ path = Inr (int (length path)))"
proof (intro conjI impI)
  show "compute_path_score occ path =
          Inr (int (length path) + (\<Sum>i < length path. max (occ (path ! i) - int i) 0))"
    using assms by (rule compute_path_score_sum)
next
  assume "length path = 1 \<and> occ (path ! 0) = 0"
  then show "compute_path_score occ path = Inr 1"
    using assms by (simp add: compute_path_score_sum)
next
  assume "\<forall>i < length path. occ (path ! i) \<le> int i"
  then have "(\<Sum>i < length path. max (occ (path ! i) - int i) 0) = 0"
    by (intro sum.neutral) auto
  then show "compute_path_score occ path = Inr (int (length path))"
    using assms by (simp add: compute_path_score_sum)
qed

theorem compute_path_score_formula_witness:
  "[3::nat, 7] \<noteq> []
   \<and> compute_path_score (\<lambda>c. if c = 3 then 0 else 1) [3::nat, 7] = Inr 2
   \<and> compute_path_score (\<lambda>c. if c = 3 then 4 else 1) [3::nat, 7] = Inr 6
   \<and> compute_path_score (\<lambda>c. 0) [3::nat] = Inr 1"
  using compute_path_score_formula [of "[3::nat, 7]" "\<lambda>c. if c = 3 then 0 else 1"]
    compute_path_score_formula [of "[3::nat, 7]" "\<lambda>c. if c = 3 then 4 else 1"]
    compute_path_score_formula [of "[3::nat]" "\<lambda>c. 0"]
  by (simp add: lessThan_Suc numeral_2_eq_2)

text \<open>
  C10: \<^verbatim>\<open>compute_path_score\<close> returns, for a non-empty path, a score that is at least
  the length of the path, hence at least 1: no channel contributes a negative penalty.
\<close>

theorem compute_path_score_ge_length:
  assumes "path \<noteq> []"
  shows "\<exists>score. compute_path_score occ path = Inr score
           \<and> int (length path) \<le> score \<and> 1 \<le> score"
proof -
  have "0 \<le> score_loop occ 0 0 path"
    by (rule score_loop_ge)
  then have len: "int (length path) \<le> int (length path) + score_loop occ 0 0 path"
    by simp
  from assms have "1 \<le> int (length path)"
    by (cases path) simp_all
  with len assms show ?thesis
    by (simp add: compute_path_score_def)
qed

theorem compute_path_score_ge_length_witness:
  "[3::nat, 7] \<noteq> []
   \<and> compute_path_score (\<lambda>c. if c = 3 then 4 else 1) [3::nat, 7] = Inr 6
   \<and> int (length [3::nat, 7]) \<le> 6"
  using compute_path_score_ge_length [of "[3::nat, 7]" "\<lambda>c. if c = 3 then 4 else 1"]
  by (simp add: compute_path_score_def)

section \<open>Properties of the ring and torus distances\<close>

text \<open>
  From the smaller address to the larger, \<^verbatim>\<open>GreedyChannelRing.get_distance\<close> is the ring
  distance. From the larger to the smaller, \<^verbatim>\<open>left_dist\<close> is the negative difference
  \<^verbatim>\<open>n2 - n1\<close> and \<^verbatim>\<open>right_dist\<close> exceeds \<open>k\<close>, so the negative difference is
  returned.
\<close>

lemma ring_get_distance_forward:
  "n1 < n2 \<Longrightarrow>
     GreedyChannelRing_get_distance nodes n1 n2 = ring_distance_spec (int (length nodes)) n1 n2"
  by (simp add: GreedyChannelRing_get_distance_def ring_distance_spec_def Let_def)

lemma ring_get_distance_backward:
  "n2 < n1 \<Longrightarrow> GreedyChannelRing_get_distance nodes n1 n2 = n2 - n1"
  by (simp add: GreedyChannelRing_get_distance_def Let_def)

text \<open>
  C1: on a ring of size \<open>k \<ge> 2\<close> the distance between two addresses is
  \<open>min(|b - a|, k - |b - a|)\<close>, symmetric, never negative and at most \<open>k div 2\<close>.
  On the ring of 5 nodes \<^verbatim>\<open>get_distance(4, 1)\<close> is \<open>-3\<close>, where the formula gives 2 and
  \<^verbatim>\<open>get_distance(1, 4)\<close> is 2.
\<close>

theorem ring_get_distance_negative:
  "GreedyChannelRing_get_distance ring5 4 1 = - 3
   \<and> GreedyChannelRing_get_distance ring5 1 4 = 2
   \<and> ring_distance_spec 5 4 1 = 2"
  by (simp add: GreedyChannelRing_get_distance_def ring_distance_spec_def ring5_def)

text \<open>
  \<^verbatim>\<open>GreedyChannelTorus.get_ring_distance\<close> takes absolute values, but from the larger
  coordinate to the smaller it compares \<open>|n2 - n1|\<close> with \<open>k + |n2 - n1|\<close>, and \<open>k\<close> is the
  number of nodes of the torus, not the length of an axis: whenever the two coordinates
  differ by at most half the number of nodes, the result is their plain difference.
\<close>

lemma get_ring_distance_no_wrap:
  "2 * \<bar>n2 - n1\<bar> \<le> int (length nodes) \<Longrightarrow> get_ring_distance nodes n1 n2 = \<bar>n2 - n1\<bar>"
  by (auto simp: get_ring_distance_def Let_def)

lemma get_ring_distance_backward:
  "n2 < n1 \<Longrightarrow> get_ring_distance nodes n1 n2 = n1 - n2"
  by (simp add: get_ring_distance_def Let_def)

text \<open>
  C4: the torus distance is the sum of the two ring distances, each with the modulus of
  its own axis. On the 3 by 3 torus \<^verbatim>\<open>get_distance((2, 0), (0, 0))\<close> is 2 in either
  direction, where the ring distance between 2 and 0 with modulus 3 is 1.
\<close>

theorem torus_get_distance_no_wrap:
  "GreedyChannelTorus_get_distance torus3 (2, 0) (0, 0) = 2
   \<and> GreedyChannelTorus_get_distance torus3 (0, 0) (2, 0) = 2
   \<and> ring_distance_spec 3 2 0 + ring_distance_spec 3 0 0 = 1"
  by (simp add: GreedyChannelTorus_get_distance_def get_ring_distance_def ring_distance_spec_def torus3_def)

section \<open>Properties of the star distance\<close>

text \<open>
  \<^verbatim>\<open>k1\<close> is the number of nodes whose channel count is the node count minus one; with
  distinct keys in \<^verbatim>\<open>self._nodes\<close> that is the number of hub addresses.
\<close>

lemma count_central_filter:
  "count_central len k1 ns =
     k1 + int (length (filter (\<lambda>node. int (length (channels node)) = len - 1) ns))"
  by (induction ns arbitrary: k1) simp_all



lemma count_central_nonneg: "0 \<le> k1 \<Longrightarrow> 0 \<le> count_central len k1 ns"
  by (simp add: count_central_filter)



section \<open>Properties of the selection\<close>

text \<open>
  C2: the selectors return a candidate of minimal score and, among those, of minimal
  distance (or length). With the candidates \<open>(3, c\<^sub>0)\<close>, \<open>(1, c\<^sub>1)\<close>, \<open>(2, c\<^sub>2)\<close> and
  occupancies 5, 3, 0 the scores are 8, 4, 2. The first filtering loop removes the first
  candidate and thereby steps over the second; \<^verbatim>\<open>min_dist\<close> is 1, taken when the score
  dropped to 4; the second loop then removes the only candidate of minimal score, and
  channel \<open>c\<^sub>1\<close> of score 4 is returned. The same happens with three paths of scores
  8, 4, 2 and lengths 3, 1, 2.
\<close>

theorem select_returns_non_minimal:
  "greedy_channel_select occ_front randint [(3, 0), (1, 1), (2, 2)] = Inr 1
   \<and> 1 + occ_front 1 = 4 \<and> 2 + occ_front 2 = 2
   \<and> greedy_path_select occ_front randint [[0, 3, 4], [1], [2, 5]] = Inr 1
   \<and> compute_path_score occ_front [1] = Inr 4 \<and> compute_path_score occ_front [2, 5] = Inr 2"
  by (simp add: greedy_channel_select_def greedy_channel_select_run_def greedy_path_select_def
      greedy_path_select_run_def remove_iter.simps occ_front_def compute_path_score_def subscript_def)

text \<open>
  C3: when two or more candidates remain tied, one of them is returned and no error is
  raised. \<^verbatim>\<open>random.randint(0, len(channels))\<close> includes its upper end: with two tied
  candidates it may draw 2, and \<^verbatim>\<open>channels[2]\<close> raises \<^verbatim>\<open>IndexError\<close>. Likewise with two
  tied paths of two hops.
\<close>

theorem select_tie_index_error:
  "randint_high 0 2 = 2
   \<and> greedy_channel_select occ_idle randint_high [(1, 0::nat), (1, 1)] = Inl IndexError
   \<and> greedy_path_select occ_idle randint_high [[0::nat, 1], [2, 3]] = Inl IndexError"
  by (simp add: greedy_channel_select_def greedy_channel_select_run_def greedy_path_select_def
      greedy_path_select_run_def remove_iter.simps occ_idle_def compute_path_score_def subscript_def
      randint_high_def)

text \<open>
  C8: when exactly one candidate has the minimal score and the minimal distance among
  those, it is returned whatever the random source. With three candidates at distance 1
  and occupancies 0, 3, 3 the first is the only one of minimal score; the first loop
  removes the second and steps over the third, which stays in the list, and the draw
  decides between the first and the third. The same on the star of three hubs, routing
  from spoke 3 to spoke 4.
\<close>

theorem select_unique_winner_random:
  "1 + occ_back 0 = 1 \<and> 1 + occ_back 1 = 4 \<and> 1 + occ_back 2 = 4
   \<and> randint_low 0 2 = 0 \<and> randint_next 0 2 = 1
   \<and> greedy_channel_select occ_back randint_low [(1, 0), (1, 1), (1, 2)] = Inr 0
   \<and> greedy_channel_select occ_back randint_next [(1, 0), (1, 1), (1, 2)] = Inr 2
   \<and> GreedyChannelStar_route_packet star_three_hubs occ_spoke randint_low 3
        \<lparr>packet_id = 0, source = 3, destination = 4\<rparr> = Inr (Some (0, 3))
   \<and> GreedyChannelStar_route_packet star_three_hubs occ_spoke randint_next 3
        \<lparr>packet_id = 0, source = 3, destination = 4\<rparr> = Inr (Some (2, 3))"
  by (simp add: GreedyChannelStar_route_packet_def greedy_channel_route_packet_def lookup_def
      star_three_hubs_def GreedyChannelStar_get_distance_def occ_spoke_def
      greedy_channel_select_def greedy_channel_select_run_def remove_iter.simps
      occ_back_def subscript_def randint_low_def randint_next_def)

text \<open>
  The loop that removes while it iterates leaves a subsequence of the list, keeps every
  element that the test spares, cannot empty a list of two or more elements, removes the
  first element when the test rejects it, and leaves the list as it is when the test
  spares every element.
\<close>

lemma subseq_remove1: "subseq (remove1 x xs) xs"
  by (induction xs) auto

lemma remove_iter_subseq: "subseq (remove_iter P i xs) xs"
proof (induction P i xs rule: remove_iter.induct)
  case (1 P i xs)
  show ?case
  proof (cases "i < length xs")
    case False
    then show ?thesis
      by (simp add: remove_iter.simps)
  next
    case True
    show ?thesis
    proof (cases "P (xs ! i)")
      case True
      with \<open>i < length xs\<close> have "subseq (remove_iter P (Suc i) (remove1 (xs ! i) xs)) (remove1 (xs ! i) xs)"
        by (rule "1.IH"(1))
      then have "subseq (remove_iter P (Suc i) (remove1 (xs ! i) xs)) xs"
        using subseq_remove1 by (rule subseq_order.order_trans)
      with True \<open>i < length xs\<close> show ?thesis
        by (subst remove_iter.simps) simp
    next
      case False
      with \<open>i < length xs\<close> have "subseq (remove_iter P (Suc i) xs) xs"
        by (rule "1.IH"(2))
      with False \<open>i < length xs\<close> show ?thesis
        by (subst remove_iter.simps) simp
    qed
  qed
qed

lemma remove_iter_keeps:
  "x \<in> set xs \<Longrightarrow> \<not> P x \<Longrightarrow> x \<in> set (remove_iter P i xs)"
proof (induction P i xs rule: remove_iter.induct)
  case (1 P i xs)
  show ?case
  proof (cases "i < length xs")
    case False
    with "1.prems" show ?thesis
      by (simp add: remove_iter.simps)
  next
    case True
    show ?thesis
    proof (cases "P (xs ! i)")
      case True
      with "1.prems" have "x \<noteq> xs ! i"
        by auto
      with "1.prems" have "x \<in> set (remove1 (xs ! i) xs)"
        by simp
      with True \<open>i < length xs\<close> "1.prems" have "x \<in> set (remove_iter P (Suc i) (remove1 (xs ! i) xs))"
        by (intro "1.IH"(1))
      with True \<open>i < length xs\<close> show ?thesis
        by (subst remove_iter.simps) simp
    next
      case False
      with \<open>i < length xs\<close> "1.prems" have "x \<in> set (remove_iter P (Suc i) xs)"
        by (intro "1.IH"(2))
      with False \<open>i < length xs\<close> show ?thesis
        by (subst remove_iter.simps) simp
    qed
  qed
qed

lemma remove_iter_length: "min i (length xs) \<le> length (remove_iter P i xs)"
proof (induction P i xs rule: remove_iter.induct)
  case (1 P i xs)
  show ?case
  proof (cases "i < length xs")
    case False
    then show ?thesis
      by (simp add: remove_iter.simps)
  next
    case True
    show ?thesis
    proof (cases "P (xs ! i)")
      case True
      with \<open>i < length xs\<close>
      have "min (Suc i) (length (remove1 (xs ! i) xs))
              \<le> length (remove_iter P (Suc i) (remove1 (xs ! i) xs))"
        by (rule "1.IH"(1))
      moreover from \<open>i < length xs\<close> have "length (remove1 (xs ! i) xs) = length xs - 1"
        by (simp add: length_remove1)
      ultimately have "i \<le> length (remove_iter P (Suc i) (remove1 (xs ! i) xs))"
        using \<open>i < length xs\<close> by simp
      with True \<open>i < length xs\<close> show ?thesis
        by (subst remove_iter.simps) simp
    next
      case False
      with \<open>i < length xs\<close> have "min (Suc i) (length xs) \<le> length (remove_iter P (Suc i) xs)"
        by (rule "1.IH"(2))
      with False \<open>i < length xs\<close> show ?thesis
        by (subst remove_iter.simps) simp
    qed
  qed
qed

lemma remove_iter_nonempty:
  assumes "1 < length xs"
  shows "remove_iter P 0 xs \<noteq> []"
proof -
  from assms have pos: "0 < length xs"
    by arith
  show ?thesis
  proof (cases "P (xs ! 0)")
    case True
    have "min (Suc 0) (length (remove1 (xs ! 0) xs))
            \<le> length (remove_iter P (Suc 0) (remove1 (xs ! 0) xs))"
      by (rule remove_iter_length)
    moreover from pos have "xs ! 0 \<in> set xs"
      by (rule nth_mem)
    then have "length (remove1 (xs ! 0) xs) = length xs - 1"
      by (simp add: length_remove1)
    ultimately have "Suc 0 \<le> length (remove_iter P (Suc 0) (remove1 (xs ! 0) xs))"
      using assms by simp
    then have "remove_iter P (Suc 0) (remove1 (xs ! 0) xs) \<noteq> []"
      by auto
    with pos True show ?thesis
      by (subst remove_iter.simps) simp
  next
    case False
    have "min (Suc 0) (length xs) \<le> length (remove_iter P (Suc 0) xs)"
      by (rule remove_iter_length)
    with assms have "Suc 0 \<le> length (remove_iter P (Suc 0) xs)"
      by simp
    then have "remove_iter P (Suc 0) xs \<noteq> []"
      by auto
    with pos False show ?thesis
      by (subst remove_iter.simps) simp
  qed
qed

lemma remove_iter_first:
  assumes "xs \<noteq> []" and "P (xs ! 0)"
  shows "length (remove_iter P 0 xs) < length xs"
proof -
  from assms(1) have pos: "0 < length xs"
    by simp
  then have "xs ! 0 \<in> set xs"
    by (rule nth_mem)
  then have "length (remove1 (xs ! 0) xs) = length xs - 1"
    by (simp add: length_remove1)
  moreover have "subseq (remove_iter P (Suc 0) (remove1 (xs ! 0) xs)) (remove1 (xs ! 0) xs)"
    by (rule remove_iter_subseq)
  then have "length (remove_iter P (Suc 0) (remove1 (xs ! 0) xs)) \<le> length (remove1 (xs ! 0) xs)"
    by (rule list_emb_length)
  ultimately have "length (remove_iter P (Suc 0) (remove1 (xs ! 0) xs)) < length xs"
    using pos by arith
  moreover from pos assms(2)
  have "remove_iter P 0 xs = remove_iter P (Suc 0) (remove1 (xs ! 0) xs)"
    by (subst remove_iter.simps) simp
  ultimately show ?thesis
    by simp
qed

lemma remove_iter_spares_all:
  "\<forall>x \<in> set xs. \<not> P x \<Longrightarrow> remove_iter P i xs = xs"
proof (induction P i xs rule: remove_iter.induct)
  case (1 P i xs)
  show ?case
  proof (cases "i < length xs")
    case False
    then show ?thesis
      by (simp add: remove_iter.simps)
  next
    case True
    with "1.prems" have no: "\<not> P (xs ! i)"
      by simp
    with True "1.prems" have "remove_iter P (Suc i) xs = xs"
      by (intro "1.IH"(2))
    with True no show ?thesis
      by (subst remove_iter.simps) simp
  qed
qed

text \<open>The first loops: the score they end with.\<close>

lemma min_channel_loop_attained:
  "fst (min_channel_loop occ xs (ms, md)) \<in> insert ms ((\<lambda>(d, c). d + occ c) ` set xs)"
proof (induction xs arbitrary: ms md)
  case Nil
  show ?case by simp
next
  case (Cons x xs)
  obtain d c where x: "x = (d, c)"
    by (cases x)
  show ?case
  proof (cases "d + occ c < ms")
    case True
    with Cons.IH [of "d + occ c" "if d < md then d else md"] show ?thesis
      by (auto simp: x Let_def)
  next
    case False
    with Cons.IH [of ms md] show ?thesis
      by (auto simp: x Let_def)
  qed
qed

lemma min_channel_loop_le:
  "fst (min_channel_loop occ xs (ms, md)) \<le> ms
   \<and> (\<forall>x \<in> set xs. fst (min_channel_loop occ xs (ms, md)) \<le> fst x + occ (snd x))"
proof (induction xs arbitrary: ms md)
  case Nil
  show ?case by simp
next
  case (Cons x xs)
  obtain d c where x: "x = (d, c)"
    by (cases x)
  show ?case
  proof (cases "d + occ c < ms")
    case True
    with Cons.IH [of "d + occ c" "if d < md then d else md"] show ?thesis
      by (auto simp: x Let_def)
  next
    case False
    with Cons.IH [of ms md] show ?thesis
      by (auto simp: x Let_def)
  qed
qed

lemma min_channel_loop_same:
  "\<forall>x \<in> set xs. \<not> fst x + occ (snd x) < ms \<Longrightarrow> min_channel_loop occ xs (ms, md) = (ms, md)"
  by (induction xs) (auto simp: Let_def)

lemma min_path_loop_returns:
  "[] \<notin> set ps \<Longrightarrow> \<exists>r. min_path_loop occ ps (ms, ml) = Inr r"
proof (induction ps arbitrary: ms ml)
  case Nil
  show ?case by simp
next
  case (Cons p ps)
  then have "p \<noteq> []" and "[] \<notin> set ps"
    by auto
  with Cons.IH show ?case
    by (simp add: compute_path_score_def Let_def)
qed

lemma min_path_loop_scored:
  "min_path_loop occ ps (ms, ml) = Inr r \<Longrightarrow> [] \<notin> set ps"
proof (induction ps arbitrary: ms ml)
  case Nil
  show ?case by simp
next
  case (Cons p ps)
  from Cons.prems have "p \<noteq> []"
    by (auto simp: compute_path_score_def split: if_splits)
  moreover from Cons.prems obtain ms' ml' where "min_path_loop occ ps (ms', ml') = Inr r"
    by (auto simp: Let_def split: sum.splits if_splits)
  then have "[] \<notin> set ps"
    by (rule Cons.IH)
  ultimately show ?case
    by auto
qed

lemma min_path_loop_attained:
  "min_path_loop occ ps (ms, ml) = Inr (s, l) \<Longrightarrow>
     Inr s \<in> insert (Inr ms) (compute_path_score occ ` set ps)"
proof (induction ps arbitrary: ms ml)
  case Nil
  then show ?case by simp
next
  case (Cons p ps)
  from Cons.prems obtain sc where sc: "compute_path_score occ p = Inr sc"
    by (auto split: sum.splits)
  show ?case
  proof (cases "sc < ms")
    case True
    with Cons.prems sc
    have "min_path_loop occ ps (sc, if int (length p) < ml then int (length p) else ml) = Inr (s, l)"
      by (simp add: Let_def)
    from Cons.IH [OF this] sc show ?thesis
      by auto
  next
    case False
    with Cons.prems sc have "min_path_loop occ ps (ms, ml) = Inr (s, l)"
      by (simp add: Let_def)
    from Cons.IH [OF this] show ?thesis
      by auto
  qed
qed

lemma min_path_loop_le:
  "min_path_loop occ ps (ms, ml) = Inr (s, l) \<Longrightarrow>
     s \<le> ms \<and> (\<forall>p \<in> set ps. \<forall>sc. compute_path_score occ p = Inr sc \<longrightarrow> s \<le> sc)"
proof (induction ps arbitrary: ms ml)
  case Nil
  then show ?case by simp
next
  case (Cons p ps)
  from Cons.prems obtain sc where sc: "compute_path_score occ p = Inr sc"
    by (auto split: sum.splits)
  show ?case
  proof (cases "sc < ms")
    case True
    with Cons.prems sc
    have "min_path_loop occ ps (sc, if int (length p) < ml then int (length p) else ml) = Inr (s, l)"
      by (simp add: Let_def)
    from Cons.IH [OF this] sc True show ?thesis
      by auto
  next
    case False
    with Cons.prems sc have "min_path_loop occ ps (ms, ml) = Inr (s, l)"
      by (simp add: Let_def)
    from Cons.IH [OF this] sc False show ?thesis
      by auto
  qed
qed

lemma min_path_loop_same:
  "[] \<notin> set ps \<Longrightarrow> \<forall>p \<in> set ps. compute_path_score occ p = Inr ms \<Longrightarrow>
     min_path_loop occ ps (ms, ml) = Inr (ms, ml)"
  by (induction ps) (auto simp: Let_def)

text \<open>The list that a call leaves behind, stage by stage.\<close>

lemma greedy_channel_select_run_left:
  "snd (greedy_channel_select_run occ randint channels_lst) =
     (if channels_lst \<noteq> [] \<and> list_all (\<lambda>tup. 0 \<le> fst tup) channels_lst
      then
        (let first = hd channels_lst;
             minima = min_channel_loop occ channels_lst (fst first + occ (snd first), fst first);
             channels1 = remove_iter (\<lambda>(d, c). d + occ c \<noteq> fst minima) 0 channels_lst
         in if 1 < length channels1
            then remove_iter (\<lambda>(d, c). d \<noteq> snd minima) 0 channels1
            else channels1)
      else channels_lst)"
  by (cases channels_lst)
    (auto simp: greedy_channel_select_run_def Let_def split: prod.splits)

lemma greedy_path_select_run_left:
  "snd (greedy_path_select_run occ randint paths) =
     (if paths \<noteq> [] \<and> [] \<notin> set paths
      then
        (case min_path_loop occ paths
                (int (length (hd paths)) + score_loop occ 0 0 (hd paths), int (length (hd paths))) of
           Inl e \<Rightarrow> paths
         | Inr minima \<Rightarrow>
             let paths1 = remove_iter (\<lambda>p. compute_path_score occ p \<noteq> Inr (fst minima)) 0 paths
             in if 1 < length paths1
                then remove_iter (\<lambda>p. int (length p) \<noteq> snd minima) 0 paths1
                else paths1)
      else paths)"
proof (cases "paths \<noteq> [] \<and> [] \<notin> set paths")
  case True
  then obtain p0 ps where Cons: "paths = p0 # ps" and p0: "p0 \<noteq> []"
    by (cases paths) auto
  from True Cons p0 show ?thesis
    by (auto simp: greedy_path_select_run_def compute_path_score_def [of occ p0] Let_def
        split: sum.splits prod.splits)
next
  case False
  show ?thesis
  proof (cases "paths = []")
    case True
    then show ?thesis
      by (simp add: greedy_path_select_run_def)
  next
    case nonempty: False
    with False have empty: "[] \<in> set paths"
      by simp
    from nonempty obtain p0 ps where Cons: "paths = p0 # ps"
      by (cases paths) auto
    show ?thesis
    proof (cases "p0 = []")
      case True
      with False show ?thesis
        by (simp add: greedy_path_select_run_def Cons compute_path_score_def)
    next
      case p0: False
      let ?score0 = "int (length p0) + score_loop occ 0 0 p0"
      from p0 have sc: "compute_path_score occ p0 = Inr ?score0"
        by (simp add: compute_path_score_def)
      have "\<not> (\<exists>r. min_path_loop occ paths (?score0, int (length p0)) = Inr r)"
        using empty by (auto dest: min_path_loop_scored)
      then obtain e where "min_path_loop occ paths (?score0, int (length p0)) = Inl e"
        by (cases "min_path_loop occ paths (?score0, int (length p0))") auto
      then have "greedy_path_select_run occ randint paths = (Inl e, paths)"
        unfolding greedy_path_select_run_def using nonempty sc
        by (simp add: Cons)
      then have "snd (greedy_path_select_run occ randint paths) = paths"
        by simp
      with False show ?thesis
        by (simp only: if_False)
    qed
  qed
qed

lemma greedy_channel_select_run_subseq:
  "subseq (snd (greedy_channel_select_run occ randint channels_lst)) channels_lst"
proof -
  have two: "subseq (remove_iter Q 0 (remove_iter P 0 channels_lst)) channels_lst" for P Q
  proof -
    have "subseq (remove_iter Q 0 (remove_iter P 0 channels_lst)) (remove_iter P 0 channels_lst)"
      by (rule remove_iter_subseq)
    moreover have "subseq (remove_iter P 0 channels_lst) channels_lst"
      by (rule remove_iter_subseq)
    ultimately show ?thesis
      by (rule subseq_order.order_trans)
  qed
  show ?thesis
    by (simp add: greedy_channel_select_run_left Let_def two remove_iter_subseq)
qed

lemma greedy_channel_select_run_nonempty:
  assumes "channels_lst \<noteq> []"
  shows "snd (greedy_channel_select_run occ randint channels_lst) \<noteq> []"
proof -
  let ?first = "hd channels_lst"
  let ?minima = "min_channel_loop occ channels_lst (fst ?first + occ (snd ?first), fst ?first)"
  let ?channels1 = "remove_iter (\<lambda>(d, c). d + occ c \<noteq> fst ?minima) 0 channels_lst"
  obtain min_score min_dist where m: "?minima = (min_score, min_dist)"
    by (cases ?minima)
  have "fst ?minima \<in> insert (fst ?first + occ (snd ?first))
          ((\<lambda>(d, c). d + occ c) ` set channels_lst)"
    by (rule min_channel_loop_attained)
  moreover from assms have "?first \<in> set channels_lst"
    by simp
  then have "fst ?first + occ (snd ?first) \<in> (\<lambda>(d, c). d + occ c) ` set channels_lst"
    by (force simp: case_prod_beta)
  ultimately have "fst ?minima \<in> (\<lambda>(d, c). d + occ c) ` set channels_lst"
    by auto
  then obtain y where y: "y \<in> set channels_lst" "\<not> (\<lambda>(d, c). d + occ c \<noteq> fst ?minima) y"
    by auto
  then have "y \<in> set ?channels1"
    by (rule remove_iter_keeps)
  then have 1: "?channels1 \<noteq> []"
    by auto
  have 2: "1 < length ?channels1 \<Longrightarrow>
             remove_iter (\<lambda>(d, c). d \<noteq> snd ?minima) 0 ?channels1 \<noteq> []"
    by (rule remove_iter_nonempty)
  from assms 1 2 show ?thesis
    by (simp add: greedy_channel_select_run_left Let_def)
qed

lemma greedy_channel_select_run_shorter:
  assumes "channels_lst \<noteq> []" and "list_all (\<lambda>tup. 0 \<le> fst tup) channels_lst"
    and "\<exists>tup \<in> set channels_lst.
           fst tup + occ (snd tup) < fst (hd channels_lst) + occ (snd (hd channels_lst))"
  shows "length (snd (greedy_channel_select_run occ randint channels_lst)) < length channels_lst"
proof -
  let ?first = "hd channels_lst"
  let ?minima = "min_channel_loop occ channels_lst (fst ?first + occ (snd ?first), fst ?first)"
  let ?P = "\<lambda>(d, c). d + occ c \<noteq> fst ?minima"
  let ?channels1 = "remove_iter ?P 0 channels_lst"
  from assms(3) obtain tup where tup: "tup \<in> set channels_lst"
    "fst tup + occ (snd tup) < fst ?first + occ (snd ?first)"
    by blast
  have "\<forall>x \<in> set channels_lst. fst ?minima \<le> fst x + occ (snd x)"
    using min_channel_loop_le [of occ channels_lst "fst ?first + occ (snd ?first)" "fst ?first"]
    by blast
  with tup have "fst ?minima < fst ?first + occ (snd ?first)"
    by force
  moreover from assms(1) have "channels_lst ! 0 = ?first"
    by (simp add: hd_conv_nth)
  ultimately have "?P (channels_lst ! 0)"
    by (simp add: case_prod_beta)
  with assms(1) have 1: "length ?channels1 < length channels_lst"
    by (rule remove_iter_first)
  have "subseq (remove_iter (\<lambda>(d, c). d \<noteq> snd ?minima) 0 ?channels1) ?channels1"
    by (rule remove_iter_subseq)
  then have "length (remove_iter (\<lambda>(d, c). d \<noteq> snd ?minima) 0 ?channels1) \<le> length ?channels1"
    by (rule list_emb_length)
  with 1 have 2: "length (remove_iter (\<lambda>(d, c). d \<noteq> snd ?minima) 0 ?channels1)
                   < length channels_lst"
    by simp
  from assms(1,2) 1 2 show ?thesis
    by (simp add: greedy_channel_select_run_left Let_def)
qed

lemma greedy_channel_select_run_unchanged:
  assumes "\<forall>x \<in> set channels_lst. \<forall>y \<in> set channels_lst.
             fst x + occ (snd x) = fst y + occ (snd y) \<and> fst x = fst y"
  shows "snd (greedy_channel_select_run occ randint channels_lst) = channels_lst"
proof (cases "channels_lst = []")
  case True
  then show ?thesis
    by (simp add: greedy_channel_select_run_left)
next
  case False
  let ?first = "hd channels_lst"
  let ?minima = "min_channel_loop occ channels_lst (fst ?first + occ (snd ?first), fst ?first)"
  from False have first: "?first \<in> set channels_lst"
    by simp
  with assms have same: "\<forall>x \<in> set channels_lst.
      fst x + occ (snd x) = fst ?first + occ (snd ?first) \<and> fst x = fst ?first"
    by blast
  then have "\<forall>x \<in> set channels_lst. \<not> fst x + occ (snd x) < fst ?first + occ (snd ?first)"
    by (metis less_irrefl)
  then have m: "?minima = (fst ?first + occ (snd ?first), fst ?first)"
    by (rule min_channel_loop_same)
  have "\<forall>x \<in> set channels_lst. \<not> (\<lambda>(d, c). d + occ c \<noteq> fst ?minima) x"
  proof
    fix x
    assume "x \<in> set channels_lst"
    with same have "fst x + occ (snd x) = fst ?first + occ (snd ?first)"
      by blast
    then show "\<not> (\<lambda>(d, c). d + occ c \<noteq> fst ?minima) x"
      by (simp add: m case_prod_beta)
  qed
  then have 1: "remove_iter (\<lambda>(d, c). d + occ c \<noteq> fst ?minima) 0 channels_lst = channels_lst"
    by (rule remove_iter_spares_all)
  have "\<forall>x \<in> set channels_lst. \<not> (\<lambda>(d, c). d \<noteq> snd ?minima) x"
  proof
    fix x
    assume "x \<in> set channels_lst"
    with same have "fst x = fst ?first"
      by blast
    then show "\<not> (\<lambda>(d, c). d \<noteq> snd ?minima) x"
      by (simp add: m case_prod_beta)
  qed
  then have 2: "remove_iter (\<lambda>(d, c). d \<noteq> snd ?minima) 0 channels_lst = channels_lst"
    by (rule remove_iter_spares_all)
  show ?thesis
    by (simp only: greedy_channel_select_run_left Let_def 1 2 if_cancel)
qed

lemma greedy_path_select_run_subseq:
  "subseq (snd (greedy_path_select_run occ randint paths)) paths"
proof -
  have two: "subseq (remove_iter Q 0 (remove_iter P 0 paths)) paths" for P Q
  proof -
    have "subseq (remove_iter Q 0 (remove_iter P 0 paths)) (remove_iter P 0 paths)"
      by (rule remove_iter_subseq)
    moreover have "subseq (remove_iter P 0 paths) paths"
      by (rule remove_iter_subseq)
    ultimately show ?thesis
      by (rule subseq_order.order_trans)
  qed
  show ?thesis
    by (simp add: greedy_path_select_run_left Let_def two remove_iter_subseq split: sum.splits)
qed

lemma greedy_path_select_run_nonempty:
  assumes "paths \<noteq> []"
  shows "snd (greedy_path_select_run occ randint paths) \<noteq> []"
proof (cases "[] \<in> set paths")
  case True
  with assms show ?thesis
    by (simp add: greedy_path_select_run_left)
next
  case False
  let ?score0 = "int (length (hd paths)) + score_loop occ 0 0 (hd paths)"
  let ?loop = "min_path_loop occ paths (?score0, int (length (hd paths)))"
  from assms have first: "hd paths \<in> set paths"
    by simp
  with False have "hd paths \<noteq> []"
    by metis
  then have sc: "compute_path_score occ (hd paths) = Inr ?score0"
    by (simp add: compute_path_score_def)
  from False obtain r where "?loop = Inr r"
    using min_path_loop_returns by blast
  then obtain min_score min_len where m: "?loop = Inr (min_score, min_len)"
    by (cases r) simp
  let ?paths1 = "remove_iter (\<lambda>p. compute_path_score occ p \<noteq> Inr min_score) 0 paths"
  from m have "Inr min_score \<in> insert (Inr ?score0) (compute_path_score occ ` set paths)"
    by (rule min_path_loop_attained)
  with sc first have "Inr min_score \<in> compute_path_score occ ` set paths"
    by force
  then obtain y where y: "y \<in> set paths"
    "\<not> (\<lambda>p. compute_path_score occ p \<noteq> Inr min_score) y"
    by force
  then have "y \<in> set ?paths1"
    by (rule remove_iter_keeps)
  then have 1: "?paths1 \<noteq> []"
    by auto
  have 2: "1 < length ?paths1 \<Longrightarrow> remove_iter (\<lambda>p. int (length p) \<noteq> min_len) 0 ?paths1 \<noteq> []"
    by (rule remove_iter_nonempty)
  from assms False 1 2 show ?thesis
    by (simp add: greedy_path_select_run_left m Let_def)
qed

lemma greedy_path_select_run_shorter:
  assumes "paths \<noteq> []" and "[] \<notin> set paths"
    and "\<exists>p \<in> set paths. \<exists>s s0. compute_path_score occ p = Inr s
           \<and> compute_path_score occ (hd paths) = Inr s0 \<and> s < s0"
  shows "length (snd (greedy_path_select_run occ randint paths)) < length paths"
proof -
  let ?score0 = "int (length (hd paths)) + score_loop occ 0 0 (hd paths)"
  let ?loop = "min_path_loop occ paths (?score0, int (length (hd paths)))"
  from assms(1) have first: "hd paths \<in> set paths"
    by simp
  with assms(2) have "hd paths \<noteq> []"
    by metis
  then have sc: "compute_path_score occ (hd paths) = Inr ?score0"
    by (simp add: compute_path_score_def)
  from assms(2) obtain r where "?loop = Inr r"
    using min_path_loop_returns by blast
  then obtain min_score min_len where m: "?loop = Inr (min_score, min_len)"
    by (cases r) simp
  let ?P = "\<lambda>p. compute_path_score occ p \<noteq> Inr min_score"
  let ?paths1 = "remove_iter ?P 0 paths"
  from assms(3) sc obtain p s where p: "p \<in> set paths" "compute_path_score occ p = Inr s"
    "s < ?score0"
    by auto
  from m have "\<forall>q \<in> set paths. \<forall>t. compute_path_score occ q = Inr t \<longrightarrow> min_score \<le> t"
    using min_path_loop_le by blast
  with p have "min_score < ?score0"
    by force
  moreover from assms(1) have "paths ! 0 = hd paths"
    by (simp add: hd_conv_nth)
  ultimately have "?P (paths ! 0)"
    by (simp add: sc)
  with assms(1) have 1: "length ?paths1 < length paths"
    by (rule remove_iter_first)
  have "subseq (remove_iter (\<lambda>p. int (length p) \<noteq> min_len) 0 ?paths1) ?paths1"
    by (rule remove_iter_subseq)
  then have "length (remove_iter (\<lambda>p. int (length p) \<noteq> min_len) 0 ?paths1) \<le> length ?paths1"
    by (rule list_emb_length)
  with 1 have 2: "length (remove_iter (\<lambda>p. int (length p) \<noteq> min_len) 0 ?paths1) < length paths"
    by simp
  from assms(1,2) 1 2 show ?thesis
    by (simp add: greedy_path_select_run_left m Let_def)
qed

lemma greedy_path_select_run_unchanged:
  assumes "\<forall>p \<in> set paths. \<forall>q \<in> set paths.
             compute_path_score occ p = compute_path_score occ q \<and> length p = length q"
  shows "snd (greedy_path_select_run occ randint paths) = paths"
proof (cases "paths \<noteq> [] \<and> [] \<notin> set paths")
  case False
  then show ?thesis
    by (simp only: greedy_path_select_run_left if_False)
next
  case True
  let ?score0 = "int (length (hd paths)) + score_loop occ 0 0 (hd paths)"
  let ?loop = "min_path_loop occ paths (?score0, int (length (hd paths)))"
  from True have first: "hd paths \<in> set paths"
    by simp
  with True have "hd paths \<noteq> []"
    by metis
  then have sc: "compute_path_score occ (hd paths) = Inr ?score0"
    by (simp add: compute_path_score_def)
  have same: "\<forall>p \<in> set paths.
      compute_path_score occ p = Inr ?score0 \<and> length p = length (hd paths)"
  proof
    fix p
    assume "p \<in> set paths"
    with assms first
    have "compute_path_score occ p = compute_path_score occ (hd paths)
            \<and> length p = length (hd paths)"
      by blast
    with sc show "compute_path_score occ p = Inr ?score0 \<and> length p = length (hd paths)"
      by simp
  qed
  from True have ne: "[] \<notin> set paths"
    by simp
  from same have all: "\<forall>p \<in> set paths. compute_path_score occ p = Inr ?score0"
    by blast
  from ne all have m: "?loop = Inr (?score0, int (length (hd paths)))"
    by (rule min_path_loop_same)
  from all have "\<forall>p \<in> set paths. \<not> (\<lambda>p. compute_path_score occ p \<noteq> Inr ?score0) p"
    by blast
  then have 1: "remove_iter (\<lambda>p. compute_path_score occ p \<noteq> Inr ?score0) 0 paths = paths"
    by (rule remove_iter_spares_all)
  from same have "\<forall>p \<in> set paths. \<not> (\<lambda>p. length p \<noteq> length (hd paths)) p"
    by simp
  then have 2: "remove_iter (\<lambda>p. length p \<noteq> length (hd paths)) 0 paths = paths"
    by (rule remove_iter_spares_all)
  from True show ?thesis
    by (simp add: greedy_path_select_run_left m Let_def 1 2)
qed

text \<open>
  C9, as stated: filtering builds new sequences and leaves the list passed in unchanged.
  After the call on the three candidates above the list passed in holds one element, and
  so does the list of three paths.
\<close>

theorem select_shortens_argument:
  "snd (greedy_channel_select_run occ_front randint_low [(3, 0), (1, 1), (2, 2)]) = [(1, 1)]
   \<and> snd (greedy_path_select_run occ_front randint_low [[0, 3, 4], [1], [2, 5]]) = [[1]]"
  by (simp add: greedy_channel_select_run_def greedy_path_select_run_def remove_iter.simps
      occ_front_def compute_path_score_def subscript_def randint_low_def)

text \<open>
  C9, amended: tie-break filtering builds no new sequence; each selector removes
  elements from the list passed in (in path mode, the collection obtained from the
  enumerator) while it iterates over it. After a call that list is a subsequence of what
  it was, and it is not empty if it was not. After a call that meets the asserted
  preconditions it is strictly shorter whenever some candidate scores less than the
  first one. It is left as it was when all candidates have the same score and the same
  distance (in path mode, the same length).
\<close>

theorem select_filters_in_place:
  "subseq (snd (greedy_channel_select_run occ randint channels_lst)) channels_lst
   \<and> (channels_lst \<noteq> [] \<longrightarrow> snd (greedy_channel_select_run occ randint channels_lst) \<noteq> [])
   \<and> (channels_lst \<noteq> [] \<and> list_all (\<lambda>tup. 0 \<le> fst tup) channels_lst
        \<and> (\<exists>tup \<in> set channels_lst.
              fst tup + occ (snd tup) < fst (hd channels_lst) + occ (snd (hd channels_lst)))
      \<longrightarrow> length (snd (greedy_channel_select_run occ randint channels_lst))
            < length channels_lst)
   \<and> ((\<forall>x \<in> set channels_lst. \<forall>y \<in> set channels_lst.
          fst x + occ (snd x) = fst y + occ (snd y) \<and> fst x = fst y)
      \<longrightarrow> snd (greedy_channel_select_run occ randint channels_lst) = channels_lst)
   \<and> subseq (snd (greedy_path_select_run occ randint paths)) paths
   \<and> (paths \<noteq> [] \<longrightarrow> snd (greedy_path_select_run occ randint paths) \<noteq> [])
   \<and> (paths \<noteq> [] \<and> [] \<notin> set paths
        \<and> (\<exists>p \<in> set paths. \<exists>s s0. compute_path_score occ p = Inr s
              \<and> compute_path_score occ (hd paths) = Inr s0 \<and> s < s0)
      \<longrightarrow> length (snd (greedy_path_select_run occ randint paths)) < length paths)
   \<and> ((\<forall>p \<in> set paths. \<forall>q \<in> set paths.
          compute_path_score occ p = compute_path_score occ q \<and> length p = length q)
      \<longrightarrow> snd (greedy_path_select_run occ randint paths) = paths)"
proof (intro conjI impI)
  show "subseq (snd (greedy_channel_select_run occ randint channels_lst)) channels_lst"
    by (rule greedy_channel_select_run_subseq)
  show "subseq (snd (greedy_path_select_run occ randint paths)) paths"
    by (rule greedy_path_select_run_subseq)
next
  assume "channels_lst \<noteq> []"
  then show "snd (greedy_channel_select_run occ randint channels_lst) \<noteq> []"
    by (rule greedy_channel_select_run_nonempty)
next
  assume "paths \<noteq> []"
  then show "snd (greedy_path_select_run occ randint paths) \<noteq> []"
    by (rule greedy_path_select_run_nonempty)
next
  assume "channels_lst \<noteq> [] \<and> list_all (\<lambda>tup. 0 \<le> fst tup) channels_lst
        \<and> (\<exists>tup \<in> set channels_lst.
              fst tup + occ (snd tup) < fst (hd channels_lst) + occ (snd (hd channels_lst)))"
  then show "length (snd (greedy_channel_select_run occ randint channels_lst))
               < length channels_lst"
    by (intro greedy_channel_select_run_shorter) simp_all
next
  assume "\<forall>x \<in> set channels_lst. \<forall>y \<in> set channels_lst.
            fst x + occ (snd x) = fst y + occ (snd y) \<and> fst x = fst y"
  then show "snd (greedy_channel_select_run occ randint channels_lst) = channels_lst"
    by (rule greedy_channel_select_run_unchanged)
next
  assume "paths \<noteq> [] \<and> [] \<notin> set paths
        \<and> (\<exists>p \<in> set paths. \<exists>s s0. compute_path_score occ p = Inr s
              \<and> compute_path_score occ (hd paths) = Inr s0 \<and> s < s0)"
  then show "length (snd (greedy_path_select_run occ randint paths)) < length paths"
    by (intro greedy_path_select_run_shorter) simp_all
next
  assume "\<forall>p \<in> set paths. \<forall>q \<in> set paths.
            compute_path_score occ p = compute_path_score occ q \<and> length p = length q"
  then show "snd (greedy_path_select_run occ randint paths) = paths"
    by (rule greedy_path_select_run_unchanged)
qed

theorem select_filters_in_place_witness:
  "[(3, 0), (1, 1), (2, 2)] \<noteq> ([] :: (int \<times> nat) list)
   \<and> list_all (\<lambda>tup. 0 \<le> fst tup) [(3, 0), (1, 1), (2 :: int, 2 :: nat)]
   \<and> 2 + occ_front 2 < 3 + occ_front 0
   \<and> snd (greedy_channel_select_run occ_front randint_low [(3, 0), (1, 1), (2, 2)]) = [(1, 1)]
   \<and> subseq [(1, 1)] [(3, 0), (1, 1), (2 :: int, 2 :: nat)]
   \<and> compute_path_score occ_front [2, 5] = Inr 2
   \<and> compute_path_score occ_front [0, 3, 4] = Inr 8
   \<and> snd (greedy_path_select_run occ_front randint_low [[0, 3, 4], [1], [2, 5]]) = [[1]]
   \<and> subseq [[1]] [[0, 3, 4], [1], [2, 5 :: nat]]
   \<and> snd (greedy_channel_select_run occ_idle randint_low [(1, 0 :: nat), (1, 1)])
        = [(1, 0), (1, 1)]
   \<and> snd (greedy_path_select_run occ_idle randint_low [[0 :: nat, 1], [2, 3]])
        = [[0, 1], [2, 3]]"
proof -
  have c: "snd (greedy_channel_select_run occ_front randint_low [(3, 0), (1, 1), (2, 2)]) = [(1, 1)]"
    by (simp add: greedy_channel_select_run_def remove_iter.simps occ_front_def subscript_def
        randint_low_def)
  have p: "snd (greedy_path_select_run occ_front randint_low [[0, 3, 4], [1], [2, 5]]) = [[1]]"
    by (simp add: greedy_path_select_run_def remove_iter.simps occ_front_def
        compute_path_score_def subscript_def randint_low_def)
  have s: "compute_path_score occ_front [2, 5] = Inr 2"
    "compute_path_score occ_front [0, 3, 4] = Inr 8" "2 + occ_front 2 < 3 + occ_front 0"
    by (simp_all add: compute_path_score_def occ_front_def)
  from select_filters_in_place [of occ_front randint_low "[(3, 0), (1, 1), (2, 2)]"
      "[[0, 3, 4], [1], [2, 5]]"]
  have shrink: "subseq [(1, 1)] [(3, 0), (1, 1), (2 :: int, 2 :: nat)]
      \<and> subseq [[1]] [[0, 3, 4], [1], [2, 5 :: nat]]"
    by (simp only: c p)
  from select_filters_in_place [of occ_idle randint_low "[(1, 0 :: nat), (1, 1)]"
      "[[0 :: nat, 1], [2, 3]]"]
  have same: "snd (greedy_channel_select_run occ_idle randint_low [(1, 0 :: nat), (1, 1)])
        = [(1, 0), (1, 1)]
      \<and> snd (greedy_path_select_run occ_idle randint_low [[0 :: nat, 1], [2, 3]])
        = [[0, 1], [2, 3]]"
    by (simp add: occ_idle_def compute_path_score_def)
  from c p s shrink same show ?thesis
    by simp
qed

section \<open>Properties of the routing strategies\<close>

text \<open>
  What the six \<^verbatim>\<open>route_packet\<close> methods do when they return: \<^verbatim>\<open>None\<close> exactly at the
  destination, and in channel mode a channel that a neighbour of the current node keeps
  under the current address.
\<close>

lemma greedy_channel_route_packet_None_iff:
  "greedy_channel_route_packet get_distance nodes occ randint current_address packet = Inr None
     \<longleftrightarrow> current_address = destination packet"
  by (auto simp: greedy_channel_route_packet_def Let_def map_sum_def split: sum.splits)

lemma greedy_path_route_packet_None_iff:
  "greedy_path_route_packet find_paths occ randint current_address packet = Inr None
     \<longleftrightarrow> current_address = destination packet"
  by (auto simp: greedy_path_route_packet_def Let_def map_sum_def split: sum.splits)

lemma subscript_member: "subscript xs i = Inr y \<Longrightarrow> y \<in> set xs"
  by (auto simp: subscript_def split: if_splits)

lemma greedy_channel_select_member:
  assumes "greedy_channel_select occ randint channels_lst = Inr c"
  shows "c \<in> snd ` set channels_lst"
proof -
  let ?left = "snd (greedy_channel_select_run occ randint channels_lst)"
  from assms obtain i where "map_sum id snd (subscript ?left i) = Inr c"
    by (cases channels_lst)
      (auto simp: greedy_channel_select_def greedy_channel_select_run_def Let_def
        split: prod.splits if_splits)
  then obtain y where "subscript ?left i = Inr y" and c: "c = snd y"
    by (cases "subscript ?left i") auto
  then have "y \<in> set ?left"
    by (simp add: subscript_member)
  moreover have "subseq ?left channels_lst"
    by (rule greedy_channel_select_run_subseq)
  ultimately have "y \<in> set channels_lst"
    by (auto elim: list_emb_set)
  with c show ?thesis
    by auto
qed

lemma channels_loop_incident:
  assumes "channels_loop get_distance nodes current_address dest addresses acc = Inr channels_lst"
    and "(d, c) \<in> set channels_lst"
  shows "(d, c) \<in> set acc
       \<or> (\<exists>address node. address \<in> set addresses \<and> lookup nodes address = Inr node
             \<and> lookup (channels node) current_address = Inr c)"
  using assms
proof (induction addresses arbitrary: acc)
  case Nil
  then show ?case by simp
next
  case (Cons address rest)
  from Cons.prems(1) obtain node channel
    where n: "lookup nodes address = Inr node"
      and ch: "lookup (channels node) current_address = Inr channel"
      and r: "channels_loop get_distance nodes current_address dest rest
                (acc @ [(get_distance address dest, channel)]) = Inr channels_lst"
    by (auto simp: Let_def split: sum.splits)
  from Cons.IH [OF r Cons.prems(2)] n ch show ?case
    by auto
qed

lemma greedy_channel_route_packet_incident:
  assumes "greedy_channel_route_packet get_distance nodes occ randint current_address packet
             = Inr (Some c)"
  shows "\<exists>curr_node address node.
           lookup nodes current_address = Inr curr_node
         \<and> address \<in> fst ` set (channels curr_node)
         \<and> lookup nodes address = Inr node
         \<and> lookup (channels node) current_address = Inr c"
proof -
  from assms obtain curr_node channels_lst
    where cur: "lookup nodes current_address = Inr curr_node"
      and l: "channels_loop get_distance nodes current_address (destination packet)
                (map fst (channels curr_node)) [] = Inr channels_lst"
      and s: "greedy_channel_select occ randint channels_lst = Inr c"
    by (auto simp: greedy_channel_route_packet_def Let_def map_sum_def split: sum.splits if_splits)
  from s obtain d where "(d, c) \<in> set channels_lst"
    by (auto dest: greedy_channel_select_member)
  with channels_loop_incident [OF l] cur show ?thesis
    by auto
qed

text \<open>
  C5: \<^verbatim>\<open>route_packet\<close> returns \<^verbatim>\<open>None\<close> iff the current address is the destination, and
  otherwise a channel at the current node. On the ring of 6 nodes, at node 1 with
  destination 4, both neighbours are at distance 2; with idle channels the two candidates
  tie, and when \<^verbatim>\<open>randint(0, 2)\<close> draws 2 the call raises \<^verbatim>\<open>IndexError\<close>.
\<close>

theorem route_packet_index_error:
  "randint_high 0 2 = 2
   \<and> GreedyChannelRing_get_distance ring6 0 4 = 2
   \<and> GreedyChannelRing_get_distance ring6 2 4 = 2
   \<and> GreedyChannelRing_route_packet ring6 occ_idle randint_high 1
        \<lparr>packet_id = 0, source = 1, destination = 4\<rparr> = Inl IndexError"
  by (simp add: GreedyChannelRing_route_packet_def greedy_channel_route_packet_def lookup_def
      ring6_def GreedyChannelRing_get_distance_def
      greedy_channel_select_def greedy_channel_select_run_def remove_iter.simps occ_idle_def
      subscript_def randint_high_def)

end
